theory Spec2Isabelle
  imports Main
begin

section \<open>Go errors\<close>

text \<open>
  Go's \<^verbatim>\<open>error\<close> is an interface value; \<^verbatim>\<open>nil\<close> is \<open>None\<close>. The error values that
  occur in the two source files are plain errors (whatever a listener or the account
  manager returns), the typed errors of \<^verbatim>\<open>status.Errorf\<close> and the wrapper that
  \<^verbatim>\<open>errors.Join\<close> builds.
\<close>

datatype status_Type = InvalidArgument | Other_Type nat

datatype go_error =
    Err string
  | Status_Error status_Type string
  | Join_Error "go_error list"

type_synonym error = "go_error option"

text \<open>
  \<^verbatim>\<open>errors.Join(errs...)\<close> of the Go standard library: nil values are discarded, the
  result is nil when every value is nil, and otherwise one error wrapping the non-nil
  values in argument order.
\<close>

definition errors_Join :: "error list \<Rightarrow> error" where
  "errors_Join errs =
     (let es = List.map_filter id errs
      in if es = [] then None else Some (Join_Error es))"

definition status_Errorf :: "status_Type \<Rightarrow> string \<Rightarrow> go_error" where
  "status_Errorf t msg = Status_Error t msg"


section \<open>relay/server: data model\<close>

text \<open>\<^verbatim>\<open>*tls.Config\<close> is opaque here; a nil pointer is \<open>None\<close>.\<close>

type_synonym tls_Config = string

record Config =
  Address :: string
  TLSConfig :: "tls_Config option"

text \<open>
  The two listener objects that \<^verbatim>\<open>Listen\<close> constructs, each recorded with exactly the
  arguments its construction receives: the composite literal
  \<^verbatim>\<open>&ws.Listener{Address: _, TLSConfig: _}\<close> and the call \<^verbatim>\<open>udp.NewListener(_)\<close>.
\<close>

datatype Listener =
    ws_Listener string "tls_Config option"
  | udp_NewListener string

text \<open>\<^verbatim>\<open>*Relay\<close>: the address of the relay engine object. \<^verbatim>\<open>NewRelay()\<close> is not part of
  the source at hand; its result is a parameter of \<open>NewServer\<close>.\<close>

type_synonym Relay = nat

record Server =
  relay :: Relay
  uDPListener :: "Listener option"
  wSListener :: "Listener option"

definition NewServer :: "Relay \<Rightarrow> Server" where
  "NewServer new_relay = \<lparr>relay = new_relay, uDPListener = None, wSListener = None\<rparr>"

text \<open>The method value \<^verbatim>\<open>r.relay.Accept\<close>, bound to the relay it was taken from.\<close>

datatype accept_fn = Relay_Accept Relay

text \<open>Calls that leave the server object, in the order they are issued.\<close>

datatype event =
    Listener_Listen Listener accept_fn
  | Listener_Close Listener
  | Relay_Close Relay nat
  | Drain_timeout nat
  | Ctx_cancel
  | Log_Errorf string go_error

datatype lstatus = Unbound | Accepting accept_fn | Bind_failed go_error | Closed

text \<open>A tracked relay session, by the time it needs to finish closing once asked to;
  \<open>None\<close> is a session whose peer never responds.\<close>

type_synonym session = "nat option"

text \<open>
  Everything the two methods read or write: the \<^verbatim>\<open>Server\<close> object behind the receiver
  pointer, the state of the listener object each of its two listener fields refers to (a
  newly constructed listener is \<open>Unbound\<close>), the sessions the relay engine tracks, a
  clock (in nanoseconds, the unit of \<^verbatim>\<open>time.Duration\<close>) and the trace of outgoing
  calls.
\<close>

record world =
  srv :: Server
  ws_status :: lstatus
  udp_status :: lstatus
  sessions :: "session list"
  clock :: nat
  trace :: "event list"

definition time_Second :: nat where
  "time_Second = 1000000000"


section \<open>Server.Close\<close>

text \<open>What the environment decides during \<^verbatim>\<open>Close\<close>: the error each listener's own
  \<^verbatim>\<open>Close\<close> returns and the time that call takes.\<close>

record close_env =
  ws_Close_err :: error
  ws_Close_time :: nat
  udp_Close_err :: error
  udp_Close_time :: nat

text \<open>
  Modelled from the spec: the listeners' \<^verbatim>\<open>Close\<close> methods (packages \<^verbatim>\<open>listener/ws\<close> and
  \<^verbatim>\<open>listener/udp\<close>) are not in the source at hand. Section 4.2: \<^verbatim>\<open>Close\<close> stops accepting
  new connections and does not block on accepted ones; it returns an error value.
\<close>

definition ws_Listener_Close :: "Listener \<Rightarrow> close_env \<Rightarrow> world \<Rightarrow> error \<times> world" where
  "ws_Listener_Close l env w =
     (ws_Close_err env,
      w\<lparr>ws_status := Closed, clock := clock w + ws_Close_time env,
        trace := trace w @ [Listener_Close l]\<rparr>)"

definition udp_Listener_Close :: "Listener \<Rightarrow> close_env \<Rightarrow> world \<Rightarrow> error \<times> world" where
  "udp_Listener_Close l env w =
     (udp_Close_err env,
      w\<lparr>udp_status := Closed, clock := clock w + udp_Close_time env,
        trace := trace w @ [Listener_Close l]\<rparr>)"

text \<open>
  Modelled from the spec: \<^verbatim>\<open>Relay.Close(ctx)\<close> is not in the source at hand. Section 4.5,
  phase 2: every tracked session is told to close; the call waits for all of them to
  finish, but only up to the deadline of the context; sessions still open at the deadline
  are force-closed, which is recorded as an event and is no error. The call returns no
  value.
\<close>

definition session_wait :: "nat \<Rightarrow> session \<Rightarrow> nat" where
  "session_wait deadline s = (case s of None \<Rightarrow> deadline | Some t \<Rightarrow> min t deadline)"

definition session_late :: "nat \<Rightarrow> session \<Rightarrow> bool" where
  "session_late deadline s = (case s of None \<Rightarrow> True | Some t \<Rightarrow> deadline < t)"

definition drain_wait :: "nat \<Rightarrow> session list \<Rightarrow> nat" where
  "drain_wait deadline ss = fold (\<lambda>s acc. max acc (session_wait deadline s)) ss 0"

definition Relay_Close_call :: "Relay \<Rightarrow> nat \<Rightarrow> world \<Rightarrow> world" where
  "Relay_Close_call rl deadline w =
     (let late = filter (session_late deadline) (sessions w);
          evs = Relay_Close rl deadline #
                  (if late = [] then [] else [Drain_timeout (length late)])
      in w\<lparr>sessions := [], clock := clock w + drain_wait deadline (sessions w),
           trace := trace w @ evs\<rparr>)"

text \<open>
  \<^verbatim>\<open>func (r *Server) Close() error\<close>, statement by statement. The deferred \<^verbatim>\<open>cancel()\<close>
  runs after the return value has been computed.
\<close>

definition Close :: "close_env \<Rightarrow> world \<Rightarrow> error \<times> world" where
  "Close env w =
     (let (wErr, w1) = (case wSListener (srv w) of
                          None \<Rightarrow> (None, w)
                        | Some l \<Rightarrow> ws_Listener_Close l env w);
          (uErr, w2) = (case uDPListener (srv w1) of
                          None \<Rightarrow> (None, w1)
                        | Some l \<Rightarrow> udp_Listener_Close l env w1);
          ctx = 30 * time_Second;
          w3 = Relay_Close_call (relay (srv w2)) ctx w2;
          err = errors_Join [wErr, uErr]
      in (err, w3\<lparr>trace := trace w3 @ [Ctx_cancel]\<rparr>))"

text \<open>The calls one execution of \<^verbatim>\<open>Close\<close> adds to the trace, and the time it takes.\<close>

definition Close_events :: "close_env \<Rightarrow> world \<Rightarrow> event list" where
  "Close_events env w = drop (length (trace w)) (trace (snd (Close env w)))"

definition Close_elapsed :: "close_env \<Rightarrow> world \<Rightarrow> nat" where
  "Close_elapsed env w = clock (snd (Close env w)) - clock w"

definition bound_listeners :: "Server \<Rightarrow> Listener list" where
  "bound_listeners r =
     (case wSListener r of None \<Rightarrow> [] | Some l \<Rightarrow> [l]) @
     (case uDPListener r of None \<Rightarrow> [] | Some l \<Rightarrow> [l])"

definition fresh_world :: "Relay \<Rightarrow> session list \<Rightarrow> world" where
  "fresh_world rl ss =
     \<lparr>srv = NewServer rl, ws_status = Unbound, udp_status = Unbound,
      sessions = ss, clock = 0, trace = []\<rparr>"

text \<open>A server that holds two listeners, both accepting, as it is after a \<^verbatim>\<open>Listen\<close>
  whose binds succeeded.\<close>

definition listening_world :: "session list \<Rightarrow> world" where
  "listening_world ss =
     \<lparr>srv = \<lparr>relay = 1, uDPListener = Some (udp_NewListener '':443''),
             wSListener = Some (ws_Listener '':443'' None)\<rparr>,
      ws_status = Accepting (Relay_Accept 1), udp_status = Accepting (Relay_Accept 1),
      sessions = ss, clock = 0, trace = []\<rparr>"


section \<open>Server.Listen\<close>

text \<open>
  \<^verbatim>\<open>Listen\<close> starts two goroutines and shares the variables \<^verbatim>\<open>wslErr\<close> and
  \<^verbatim>\<open>udpLErr\<close> with them, so it is modelled as three threads taking atomic steps under a
  schedule: the calling goroutine (\<open>T_main\<close>) and the two function literals (\<open>T_ws\<close>,
  \<open>T_udp\<close>). Program points are named by the source line they stand at. Every
  sequentially consistent interleaving of the statements is a schedule; a thread that
  cannot move (not started, blocked, finished) leaves the state as it is. The caller's
  reads of the two error variables are not ordered after the goroutines' writes by any
  synchronisation, so each of these interleavings is an execution the program can show.
\<close>

datatype main_pc =
    L36  \<comment> \<open>\<^verbatim>\<open>wg := sync.WaitGroup{}; wg.Add(2)\<close>\<close>
  | L38  \<comment> \<open>\<^verbatim>\<open>r.wSListener = &ws.Listener{...}; var wslErr error\<close>\<close>
  | L44  \<comment> \<open>\<^verbatim>\<open>go func() {...}()\<close>, the streamed listener\<close>
  | L52  \<comment> \<open>\<^verbatim>\<open>r.uDPListener = udp.NewListener(cfg.Address); var udpLErr error\<close>\<close>
  | L54  \<comment> \<open>\<^verbatim>\<open>go func() {...}()\<close>, the message-oriented listener\<close>
  | L62_arg1  \<comment> \<open>evaluate \<^verbatim>\<open>wslErr\<close>, the first argument of \<^verbatim>\<open>errors.Join\<close>\<close>
  | L62_arg2  \<comment> \<open>evaluate \<^verbatim>\<open>udpLErr\<close>, the second argument\<close>
  | L62_call  \<comment> \<open>\<^verbatim>\<open>err := errors.Join(...)\<close>\<close>
  | L63  \<comment> \<open>\<^verbatim>\<open>return err\<close>\<close>
  | Returned

datatype go_pc =
    Not_started
  | At_Listen  \<comment> \<open>about to call \<^verbatim>\<open>Listen(r.relay.Accept)\<close> on the listener\<close>
  | In_Listen  \<comment> \<open>bound and serving: blocked inside \<^verbatim>\<open>Listen\<close>\<close>
  | Listen_returned error  \<comment> \<open>\<^verbatim>\<open>Listen\<close> has returned; the assignment is next\<close>
  | At_if  \<comment> \<open>\<^verbatim>\<open>if err != nil { log.Errorf(...) }\<close>\<close>
  | At_deferred  \<comment> \<open>the deferred \<^verbatim>\<open>wg.Done()\<close>\<close>
  | Exited
  | Panicked  \<comment> \<open>method call on a nil interface value\<close>

datatype tid = T_main | T_ws | T_udp

text \<open>
  Modelled from the spec: the listeners' \<^verbatim>\<open>Listen\<close> methods are not in the source at
  hand. Section 4.2: \<^verbatim>\<open>Listen\<close> either fails to bind and returns the error, or binds and
  blocks the calling task for the listener's lifetime, accepting connections through the
  callback it was given. The outcome of each bind is decided by the environment.
\<close>

datatype bind_outcome = Binds | Bind_fails go_error

record listen_env =
  ws_bind :: bind_outcome
  udp_bind :: bind_outcome

text \<open>The frame of one call of \<^verbatim>\<open>Listen\<close>: the world, the locals of the method and the
  program points of the three threads. \<open>result\<close> is \<open>None\<close> until \<^verbatim>\<open>Listen\<close> returns.\<close>

record Listen_state = world +
  pc :: main_pc
  wg :: int
  wslErr :: error
  udpLErr :: error
  arg1 :: error
  arg2 :: error
  err :: error
  result :: "error option"
  ws_pc :: go_pc
  udp_pc :: go_pc

definition main_step :: "Config \<Rightarrow> Listen_state \<Rightarrow> Listen_state" where
  "main_step cfg s =
     (case pc s of
        L36 \<Rightarrow> s\<lparr>wg := 0 + 2, pc := L38\<rparr>
      | L38 \<Rightarrow> s\<lparr>srv := (srv s)\<lparr>wSListener :=
                      Some (ws_Listener (Address cfg) (TLSConfig cfg))\<rparr>,
                  ws_status := Unbound, wslErr := None, pc := L44\<rparr>
      | L44 \<Rightarrow> s\<lparr>ws_pc := At_Listen, pc := L52\<rparr>
      | L52 \<Rightarrow> s\<lparr>srv := (srv s)\<lparr>uDPListener := Some (udp_NewListener (Address cfg))\<rparr>,
                  udp_status := Unbound, udpLErr := None, pc := L54\<rparr>
      | L54 \<Rightarrow> s\<lparr>udp_pc := At_Listen, pc := L62_arg1\<rparr>
      | L62_arg1 \<Rightarrow> s\<lparr>arg1 := wslErr s, pc := L62_arg2\<rparr>
      | L62_arg2 \<Rightarrow> s\<lparr>arg2 := udpLErr s, pc := L62_call\<rparr>
      | L62_call \<Rightarrow> s\<lparr>err := errors_Join [arg1 s, arg2 s], pc := L63\<rparr>
      | L63 \<Rightarrow> s\<lparr>result := Some (err s), pc := Returned\<rparr>
      | Returned \<Rightarrow> s)"

definition ws_step :: "listen_env \<Rightarrow> Listen_state \<Rightarrow> Listen_state" where
  "ws_step env s =
     (case ws_pc s of
        Not_started \<Rightarrow> s
      | At_Listen \<Rightarrow>
          (case wSListener (srv s) of
             None \<Rightarrow> s\<lparr>ws_pc := Panicked\<rparr>
           | Some l \<Rightarrow>
               (let accept = Relay_Accept (relay (srv s));
                    s' = s\<lparr>trace := trace s @ [Listener_Listen l accept]\<rparr>
                in case ws_bind env of
                     Binds \<Rightarrow> s'\<lparr>ws_status := Accepting accept, ws_pc := In_Listen\<rparr>
                   | Bind_fails e \<Rightarrow>
                       s'\<lparr>ws_status := Bind_failed e, ws_pc := Listen_returned (Some e)\<rparr>))
      | In_Listen \<Rightarrow> s
      | Listen_returned e \<Rightarrow> s\<lparr>wslErr := e, ws_pc := At_if\<rparr>
      | At_if \<Rightarrow>
          (case wslErr s of
             None \<Rightarrow> s\<lparr>ws_pc := At_deferred\<rparr>
           | Some e \<Rightarrow> s\<lparr>trace := trace s @ [Log_Errorf ''failed to bind ws server: %s'' e],
                         ws_pc := At_deferred\<rparr>)
      | At_deferred \<Rightarrow> s\<lparr>wg := wg s - 1, ws_pc := Exited\<rparr>
      | Exited \<Rightarrow> s
      | Panicked \<Rightarrow> s)"

definition udp_step :: "listen_env \<Rightarrow> Listen_state \<Rightarrow> Listen_state" where
  "udp_step env s =
     (case udp_pc s of
        Not_started \<Rightarrow> s
      | At_Listen \<Rightarrow>
          (case uDPListener (srv s) of
             None \<Rightarrow> s\<lparr>udp_pc := Panicked\<rparr>
           | Some l \<Rightarrow>
               (let accept = Relay_Accept (relay (srv s));
                    s' = s\<lparr>trace := trace s @ [Listener_Listen l accept]\<rparr>
                in case udp_bind env of
                     Binds \<Rightarrow> s'\<lparr>udp_status := Accepting accept, udp_pc := In_Listen\<rparr>
                   | Bind_fails e \<Rightarrow>
                       s'\<lparr>udp_status := Bind_failed e, udp_pc := Listen_returned (Some e)\<rparr>))
      | In_Listen \<Rightarrow> s
      | Listen_returned e \<Rightarrow> s\<lparr>udpLErr := e, udp_pc := At_if\<rparr>
      | At_if \<Rightarrow>
          (case udpLErr s of
             None \<Rightarrow> s\<lparr>udp_pc := At_deferred\<rparr>
           | Some e \<Rightarrow> s\<lparr>trace := trace s @ [Log_Errorf ''failed to bind ws server: %s'' e],
                         udp_pc := At_deferred\<rparr>)
      | At_deferred \<Rightarrow> s\<lparr>wg := wg s - 1, udp_pc := Exited\<rparr>
      | Exited \<Rightarrow> s
      | Panicked \<Rightarrow> s)"

definition step :: "Config \<Rightarrow> listen_env \<Rightarrow> tid \<Rightarrow> Listen_state \<Rightarrow> Listen_state" where
  "step cfg env t s =
     (case t of T_main \<Rightarrow> main_step cfg s | T_ws \<Rightarrow> ws_step env s | T_udp \<Rightarrow> udp_step env s)"

definition run :: "Config \<Rightarrow> listen_env \<Rightarrow> tid list \<Rightarrow> Listen_state \<Rightarrow> Listen_state" where
  "run cfg env sched s = fold (step cfg env) sched s"

text \<open>Entry into \<^verbatim>\<open>Listen\<close>: locals at their zero values, no goroutine started.\<close>

definition Listen_entry :: "world \<Rightarrow> Listen_state" where
  "Listen_entry w =
     \<lparr>srv = srv w, ws_status = ws_status w, udp_status = udp_status w,
      sessions = sessions w, clock = clock w, trace = trace w,
      pc = L36, wg = 0, wslErr = None, udpLErr = None, arg1 = None, arg2 = None,
      err = None, result = None, ws_pc = Not_started, udp_pc = Not_started\<rparr>"

definition Listen :: "Config \<Rightarrow> listen_env \<Rightarrow> tid list \<Rightarrow> world \<Rightarrow> Listen_state" where
  "Listen cfg env sched w = run cfg env sched (Listen_entry w)"


text \<open>The calls one execution of \<^verbatim>\<open>Listen\<close> adds to the trace.\<close>

definition Listen_events :: "Config \<Rightarrow> listen_env \<Rightarrow> tid list \<Rightarrow> world \<Rightarrow> event list" where
  "Listen_events cfg env sched w = drop (length (trace w)) (trace (Listen cfg env sched w))"

text \<open>The schedule in which the caller runs to its return before either goroutine is
  given a turn, and the one in which both goroutines finish first.\<close>

definition main_first :: "tid list" where
  "main_first = replicate 9 T_main"

definition goroutines_first :: "tid list" where
  "goroutines_first =
     replicate 5 T_main @ replicate 4 T_ws @ replicate 4 T_udp @ replicate 4 T_main"


text \<open>
  What holds of every frame of \<^verbatim>\<open>Listen\<close> that a schedule can reach from its entry:
  the listener fields hold the listeners built from the configuration once the caller is
  past their assignment, a goroutine runs only after its \<^verbatim>\<open>go\<close> statement, no
  goroutine has called a method on a nil listener, a goroutine blocked inside a
  listener's \<^verbatim>\<open>Listen\<close> means that listener is accepting for the server's relay, and a
  result exists only after the return. \<open>pc_ord\<close> numbers the caller's program points in source order.
\<close>

fun pc_ord :: "main_pc \<Rightarrow> nat" where
  "pc_ord L36 = 0"
| "pc_ord L38 = 1"
| "pc_ord L44 = 2"
| "pc_ord L52 = 3"
| "pc_ord L54 = 4"
| "pc_ord L62_arg1 = 5"
| "pc_ord L62_arg2 = 6"
| "pc_ord L62_call = 7"
| "pc_ord L63 = 8"
| "pc_ord Returned = 9"

definition Listen_inv :: "Config \<Rightarrow> Listen_state \<Rightarrow> bool" where
  "Listen_inv cfg s \<longleftrightarrow>
     (2 \<le> pc_ord (pc s) \<longrightarrow>
        wSListener (srv s) = Some (ws_Listener (Address cfg) (TLSConfig cfg))) \<and>
     (4 \<le> pc_ord (pc s) \<longrightarrow>
        uDPListener (srv s) = Some (udp_NewListener (Address cfg))) \<and>
     (ws_pc s \<noteq> Not_started \<longrightarrow> 3 \<le> pc_ord (pc s)) \<and>
     (udp_pc s \<noteq> Not_started \<longrightarrow> 5 \<le> pc_ord (pc s)) \<and>
     (ws_pc s \<noteq> Panicked) \<and> (udp_pc s \<noteq> Panicked) \<and>
     (ws_pc s = In_Listen \<longrightarrow> ws_status s = Accepting (Relay_Accept (relay (srv s)))) \<and>
     (udp_pc s = In_Listen \<longrightarrow> udp_status s = Accepting (Relay_Accept (relay (srv s)))) \<and>
     (result s \<noteq> None \<longrightarrow> pc s = Returned)"

text \<open>The calls \<^verbatim>\<open>Listen\<close> may issue for configuration \<open>cfg\<close> on a server whose relay is
  \<open>rl\<close>: a listener's \<^verbatim>\<open>Listen\<close>, on one of the two listeners built from \<open>cfg\<close> and
  with the accept callback of \<open>rl\<close>, or a log line.\<close>

fun Listen_event_ok :: "Config \<Rightarrow> Relay \<Rightarrow> event \<Rightarrow> bool" where
  "Listen_event_ok cfg rl (Listener_Listen l a) =
     (a = Relay_Accept rl \<and>
      (l = ws_Listener (Address cfg) (TLSConfig cfg) \<or> l = udp_NewListener (Address cfg)))"
| "Listen_event_ok cfg rl (Log_Errorf f e) = True"
| "Listen_event_ok cfg rl (Listener_Close l) = False"
| "Listen_event_ok cfg rl (Relay_Close r d) = False"
| "Listen_event_ok cfg rl (Drain_timeout n) = False"
| "Listen_event_ok cfg rl Ctx_cancel = False"

text \<open>The part of a frame that the message-oriented listener's goroutine and the caller
  read and write, and the same for the streamed listener.\<close>

definition udp_side :: "Listen_state \<Rightarrow> main_pc \<times> Server \<times> lstatus \<times> go_pc \<times> error" where
  "udp_side s = (pc s, srv s, udp_status s, udp_pc s, udpLErr s)"

definition ws_side :: "Listen_state \<Rightarrow> main_pc \<times> Server \<times> lstatus \<times> go_pc \<times> error" where
  "ws_side s = (pc s, srv s, ws_status s, ws_pc s, wslErr s)"



section \<open>management/server/http: the nameserver-group handlers\<close>

subsection \<open>Data\<close>

text \<open>\<^verbatim>\<open>api.Nameserver\<close>, the JSON shape of one nameserver.\<close>

record api_Nameserver =
  Ip :: string
  NsType :: string
  Port :: int

text \<open>
  \<^verbatim>\<open>nbdns.NameServer\<close> and \<^verbatim>\<open>nbdns.NameServerGroup\<close>. Their declarations are not in the
  source at hand; the fields are the ones the handlers read and write, and the types of
  the address and of the nameserver kind are parameters.
\<close>

record ('ip, 'nt) NameServer =
  IP :: 'ip
  NSType :: 'nt
  NS_Port :: int

record ('ip, 'nt) NameServerGroup =
  ID :: string
  Name :: string
  Description :: string
  NameServers :: "('ip, 'nt) NameServer list"
  Groups :: "string list"
  Primary :: bool
  Domains :: "string list"
  Enabled :: bool
  SearchDomainsEnabled :: bool

text \<open>\<^verbatim>\<open>api.NameserverGroup\<close>, the JSON shape of a group in a response.\<close>

record api_NameserverGroup =
  api_Id :: string
  api_Name :: string
  api_Description :: string
  api_Primary :: bool
  api_Domains :: "string list"
  api_Groups :: "string list"
  api_Nameservers :: "api_Nameserver list"
  api_Enabled :: bool
  api_SearchDomainsEnabled :: bool

text \<open>\<^verbatim>\<open>api.PutApiDnsNameserversNsgroupIdJSONRequestBody\<close>.\<close>

record put_request_body =
  req_Name :: string
  req_Description :: string
  req_Nameservers :: "api_Nameserver list"
  req_Groups :: "string list"
  req_Primary :: bool
  req_Domains :: "string list"
  req_Enabled :: bool
  req_SearchDomainsEnabled :: bool

text \<open>The authorization claims of a request, and the request itself: the path variables
  that \<^verbatim>\<open>mux.Vars\<close> gives, and the body.\<close>

record AuthorizationClaims =
  AccountId :: string
  UserId :: string

record Request =
  Vars :: "string \<rightharpoonup> string"
  Body :: string

text \<open>Indexing a Go map with a key it does not hold gives the zero value, here the empty
  string.\<close>

definition mux_Vars :: "Request \<Rightarrow> string \<Rightarrow> string" where
  "mux_Vars r k = (case Vars r k of None \<Rightarrow> [] | Some v \<Rightarrow> v)"

text \<open>
  The packages the handlers call that are not in the source at hand, as parameters:
  \<^verbatim>\<open>nbdns.ParseNameServerURL\<close>, the \<^verbatim>\<open>String\<close> methods of an address and of a
  nameserver kind, and JSON decoding of a request body.
\<close>

record ('ip, 'nt) packages =
  ParseNameServerURL :: "string \<Rightarrow> go_error + ('ip, 'nt) NameServer"
  IP_String :: "'ip \<Rightarrow> string"
  NSType_String :: "'nt \<Rightarrow> string"
  json_Decode :: "string \<Rightarrow> go_error + put_request_body"

text \<open>
  The methods of the \<^verbatim>\<open>server.AccountManager\<close> interface that the three handlers call,
  as functions on the data store \<open>'st\<close> behind the account manager: each returns its
  result and the store it leaves.
\<close>

record ('st, 'ip, 'nt) AccountManager =
  GetNameServerGroup ::
    "'st \<Rightarrow> string \<Rightarrow> string \<Rightarrow> string \<Rightarrow> (go_error + ('ip, 'nt) NameServerGroup) \<times> 'st"
  SaveNameServerGroup ::
    "'st \<Rightarrow> string \<Rightarrow> string \<Rightarrow> ('ip, 'nt) NameServerGroup \<Rightarrow> error \<times> 'st"
  DeleteNameServerGroup ::
    "'st \<Rightarrow> string \<Rightarrow> string \<Rightarrow> string \<Rightarrow> error \<times> 'st"

record ('st, 'ip, 'nt) NameserversHandler =
  accountManager :: "('st, 'ip, 'nt) AccountManager"
  claimsExtractor :: "Request \<Rightarrow> AuthorizationClaims"

text \<open>What a handler leaves behind: the store, the account-manager methods it invoked
  and what it wrote to the response writer.\<close>

datatype ('ip, 'nt) am_call =
    Call_GetNameServerGroup string string string
  | Call_SaveNameServerGroup string string "('ip, 'nt) NameServerGroup"
  | Call_DeleteNameServerGroup string string string

datatype json_object = JSON_NameserverGroup api_NameserverGroup | JSON_emptyObject

datatype response =
    util_WriteError go_error
  | util_WriteErrorResponse string nat
  | util_WriteJSONObject json_object

record ('st, 'ip, 'nt) http_state =
  store :: 'st
  am_calls :: "('ip, 'nt) am_call list"
  written :: "response list"

definition respond :: "response \<Rightarrow> ('st, 'ip, 'nt) http_state \<Rightarrow> ('st, 'ip, 'nt) http_state" where
  "respond resp \<sigma> = \<sigma>\<lparr>written := written \<sigma> @ [resp]\<rparr>"

definition http_StatusBadRequest :: nat where
  "http_StatusBadRequest = 400"

subsection \<open>Conversions\<close>

text \<open>\<^verbatim>\<open>%d\<close> of \<^verbatim>\<open>fmt.Sprintf\<close>: an integer in decimal, with a minus sign when negative.\<close>

fun decimal :: "nat \<Rightarrow> string" where
  "decimal n =
     (if n < 10 then [''0123456789'' ! n]
      else decimal (n div 10) @ [''0123456789'' ! (n mod 10)])"

definition fmt_d :: "int \<Rightarrow> string" where
  "fmt_d i = (if i < 0 then CHR ''-'' # decimal (nat (- i)) else decimal (nat i))"

text \<open>\<^verbatim>\<open>fmt.Sprintf("%s://%s:%d", apiNS.NsType, apiNS.Ip, apiNS.Port)\<close>\<close>

definition nameserver_url :: "api_Nameserver \<Rightarrow> string" where
  "nameserver_url apiNS = NsType apiNS @ ''://'' @ Ip apiNS @ '':'' @ fmt_d (Port apiNS)"

text \<open>
  \<^verbatim>\<open>toServerNSList\<close>: the loop over \<^verbatim>\<open>apiNSList\<close> with the list \<^verbatim>\<open>nsList\<close> built so
  far; a parse error returns \<^verbatim>\<open>nil, err\<close> at once. The result is the pair the Go function
  returns; a nil slice is the empty list.
\<close>

fun toServerNSList_loop ::
  "('ip, 'nt) packages \<Rightarrow> api_Nameserver list \<Rightarrow> ('ip, 'nt) NameServer list
     \<Rightarrow> ('ip, 'nt) NameServer list \<times> error" where
  "toServerNSList_loop P [] nsList = (nsList, None)"
| "toServerNSList_loop P (apiNS # rest) nsList =
     (case ParseNameServerURL P (nameserver_url apiNS) of
        Inl perr \<Rightarrow> ([], Some perr)
      | Inr parsed \<Rightarrow> toServerNSList_loop P rest (nsList @ [parsed]))"

definition toServerNSList ::
  "('ip, 'nt) packages \<Rightarrow> api_Nameserver list \<Rightarrow> ('ip, 'nt) NameServer list \<times> error" where
  "toServerNSList P apiNSList = toServerNSList_loop P apiNSList []"

definition toNameserverGroupResponse ::
  "('ip, 'nt) packages \<Rightarrow> ('ip, 'nt) NameServerGroup \<Rightarrow> api_NameserverGroup" where
  "toNameserverGroupResponse P serverNSGroup =
     (let nsList = map (\<lambda>ns. \<lparr>Ip = IP_String P (IP ns),
                               NsType = NSType_String P (NSType ns),
                               Port = NS_Port ns\<rparr>) (NameServers serverNSGroup)
      in \<lparr>api_Id = ID serverNSGroup,
          api_Name = Name serverNSGroup,
          api_Description = Description serverNSGroup,
          api_Primary = Primary serverNSGroup,
          api_Domains = Domains serverNSGroup,
          api_Groups = Groups serverNSGroup,
          api_Nameservers = nsList,
          api_Enabled = Enabled serverNSGroup,
          api_SearchDomainsEnabled = SearchDomainsEnabled serverNSGroup\<rparr>)"

subsection \<open>Handlers\<close>

definition UpdateNameserverGroup ::
  "('st, 'ip, 'nt) NameserversHandler \<Rightarrow> ('ip, 'nt) packages \<Rightarrow> Request
     \<Rightarrow> ('st, 'ip, 'nt) http_state \<Rightarrow> ('st, 'ip, 'nt) http_state" where
  "UpdateNameserverGroup h P r \<sigma> =
     (let nsGroupID = mux_Vars r ''nsgroupId'' in
      if length nsGroupID = 0 then
        respond (util_WriteError
                 (status_Errorf InvalidArgument ''invalid nameserver group ID'')) \<sigma>
      else
        case json_Decode P (Body r) of
          Inl derr \<Rightarrow>
            respond (util_WriteErrorResponse ''couldn't parse JSON request''
                     http_StatusBadRequest) \<sigma>
        | Inr req \<Rightarrow>
            (case toServerNSList P (req_Nameservers req) of
               (nsList, Some perr) \<Rightarrow>
                 respond (util_WriteError
                          (status_Errorf InvalidArgument ''invalid NS servers format'')) \<sigma>
             | (nsList, None) \<Rightarrow>
                 (let updatedNSGroup =
                        \<lparr>ID = nsGroupID,
                         Name = req_Name req,
                         Description = req_Description req,
                         NameServers = nsList,
                         Groups = req_Groups req,
                         Primary = req_Primary req,
                         Domains = req_Domains req,
                         Enabled = req_Enabled req,
                         SearchDomainsEnabled = req_SearchDomainsEnabled req\<rparr>;
                      claims = claimsExtractor h r;
                      (serr, st) = SaveNameServerGroup (accountManager h) (store \<sigma>)
                                    (AccountId claims) (UserId claims) updatedNSGroup;
                      \<sigma>' = \<sigma>\<lparr>store := st,
                              am_calls := am_calls \<sigma> @
                                [Call_SaveNameServerGroup (AccountId claims) (UserId claims)
                                   updatedNSGroup]\<rparr>
                  in case serr of
                       Some e \<Rightarrow> respond (util_WriteError e) \<sigma>'
                     | None \<Rightarrow>
                         respond (util_WriteJSONObject (JSON_NameserverGroup
                                  (toNameserverGroupResponse P updatedNSGroup))) \<sigma>')))"

definition DeleteNameserverGroup ::
  "('st, 'ip, 'nt) NameserversHandler \<Rightarrow> Request
     \<Rightarrow> ('st, 'ip, 'nt) http_state \<Rightarrow> ('st, 'ip, 'nt) http_state" where
  "DeleteNameserverGroup h r \<sigma> =
     (let nsGroupID = mux_Vars r ''nsgroupId'' in
      if length nsGroupID = 0 then
        respond (util_WriteError
                 (status_Errorf InvalidArgument ''invalid nameserver group ID'')) \<sigma>
      else
        (let claims = claimsExtractor h r;
             (serr, st) = DeleteNameServerGroup (accountManager h) (store \<sigma>)
                           (AccountId claims) nsGroupID (UserId claims);
             \<sigma>' = \<sigma>\<lparr>store := st,
                     am_calls := am_calls \<sigma> @
                       [Call_DeleteNameServerGroup (AccountId claims) nsGroupID
                          (UserId claims)]\<rparr>
         in case serr of
              Some e \<Rightarrow> respond (util_WriteError e) \<sigma>'
            | None \<Rightarrow> respond (util_WriteJSONObject JSON_emptyObject) \<sigma>'))"

definition GetNameserverGroup ::
  "('st, 'ip, 'nt) NameserversHandler \<Rightarrow> ('ip, 'nt) packages \<Rightarrow> Request
     \<Rightarrow> ('st, 'ip, 'nt) http_state \<Rightarrow> ('st, 'ip, 'nt) http_state" where
  "GetNameserverGroup h P r \<sigma> =
     (let nsGroupID = mux_Vars r ''nsgroupId'' in
      if length nsGroupID = 0 then
        respond (util_WriteError
                 (status_Errorf InvalidArgument ''invalid nameserver group ID'')) \<sigma>
      else
        (let claims = claimsExtractor h r;
             (res, st) = GetNameServerGroup (accountManager h) (store \<sigma>)
                           (AccountId claims) (UserId claims) nsGroupID;
             \<sigma>' = \<sigma>\<lparr>store := st,
                     am_calls := am_calls \<sigma> @
                       [Call_GetNameServerGroup (AccountId claims) (UserId claims)
                          nsGroupID]\<rparr>
         in case res of
              Inl e \<Rightarrow> respond (util_WriteError e) \<sigma>'
            | Inr nsGroup \<Rightarrow>
                respond (util_WriteJSONObject (JSON_NameserverGroup
                         (toNameserverGroupResponse P nsGroup))) \<sigma>'))"


subsection \<open>An example instance\<close>

text \<open>A parser that accepts one URL, and an account manager whose every method changes
  the store (a counter), for evaluating the handlers on concrete requests.\<close>

definition example_packages :: "(string, string) packages" where
  "example_packages =
     \<lparr>ParseNameServerURL = (\<lambda>u. if u = ''udp://10.0.0.1:53''
                                 then Inr \<lparr>IP = ''10.0.0.1'', NSType = ''udp'', NS_Port = 53\<rparr>
                                 else Inl (Err ''invalid nameserver url'')),
      IP_String = (\<lambda>ip. ip),
      NSType_String = (\<lambda>t. t),
      json_Decode = (\<lambda>b. Inl (Err ''unexpected end of JSON input''))\<rparr>"

definition example_handler :: "(nat, string, string) NameserversHandler" where
  "example_handler =
     \<lparr>accountManager =
        \<lparr>GetNameServerGroup = (\<lambda>st a u i. (Inl (Err ''not found''), Suc st)),
         SaveNameServerGroup = (\<lambda>st a u g. (None, Suc st)),
         DeleteNameServerGroup = (\<lambda>st a i u. (None, Suc st))\<rparr>,
      claimsExtractor = (\<lambda>r. \<lparr>AccountId = ''acc'', UserId = ''usr''\<rparr>)\<rparr>"


section \<open>Properties of Server.Close\<close>

lemma drain_wait_fold_le:
  "acc \<le> d \<Longrightarrow> fold (\<lambda>s acc. max acc (session_wait d s)) ss acc \<le> d"
  by (induction ss arbitrary: acc) (auto simp: session_wait_def split: option.splits)

lemma drain_wait_le: "drain_wait d ss \<le> d"
  unfolding drain_wait_def by (rule drain_wait_fold_le) simp

lemma Close_trace:
  "trace (snd (Close env w)) =
     trace w @ map Listener_Close (bound_listeners (srv w)) @
     Relay_Close (relay (srv w)) (30 * time_Second) #
     (if filter (session_late (30 * time_Second)) (sessions w) = [] then []
      else [Drain_timeout (length (filter (session_late (30 * time_Second)) (sessions w)))]) @
     [Ctx_cancel]"
  by (simp add: Close_def ws_Listener_Close_def udp_Listener_Close_def Relay_Close_call_def
      bound_listeners_def Let_def split: option.splits)

lemma Close_events_eq:
  "Close_events env w =
     map Listener_Close (bound_listeners (srv w)) @
     Relay_Close (relay (srv w)) (30 * time_Second) #
     (if filter (session_late (30 * time_Second)) (sessions w) = [] then []
      else [Drain_timeout (length (filter (session_late (30 * time_Second)) (sessions w)))]) @
     [Ctx_cancel]"
  unfolding Close_events_def Close_trace by simp

lemma Close_result:
  "fst (Close env w) =
     errors_Join [case wSListener (srv w) of None \<Rightarrow> None | Some l \<Rightarrow> ws_Close_err env,
                  case uDPListener (srv w) of None \<Rightarrow> None | Some l \<Rightarrow> udp_Close_err env]"
  by (simp add: Close_def ws_Listener_Close_def udp_Listener_Close_def Let_def
      split: option.splits)

lemma Close_clock:
  "clock (snd (Close env w)) =
     clock w
     + (case wSListener (srv w) of None \<Rightarrow> 0 | Some l \<Rightarrow> ws_Close_time env)
     + (case uDPListener (srv w) of None \<Rightarrow> 0 | Some l \<Rightarrow> udp_Close_time env)
     + drain_wait (30 * time_Second) (sessions w)"
  by (simp add: Close_def ws_Listener_Close_def udp_Listener_Close_def Relay_Close_call_def
      Let_def split: option.splits)



lemma Close_events_split:
  "\<exists>post. Close_events env w =
     map Listener_Close (bound_listeners (srv w)) @
     Relay_Close (relay (srv w)) (30 * time_Second) # post
     \<and> (post = [Ctx_cancel] \<or> (\<exists>n. post = [Drain_timeout n, Ctx_cancel]))"
  unfolding Close_events_eq by simp

text \<open>
  C2. \<^verbatim>\<open>Close\<close> is two-phase and ordered. The calls it issues are, first, one
  \<^verbatim>\<open>Close\<close> on every listener the server holds (the streamed one, then the
  message-oriented one), and only then the single call that tells the relay engine to
  close its sessions: no listener \<^verbatim>\<open>Close\<close> comes after the drain call, and no drain
  call comes before or after that one.
\<close>

theorem Close_listeners_then_relay:
  "\<exists>pre post.
     Close_events env w = pre @ Relay_Close (relay (srv w)) (30 * time_Second) # post
     \<and> pre = map Listener_Close (bound_listeners (srv w))
     \<and> (\<forall>l. Listener_Close l \<notin> set post)
     \<and> (\<forall>rl d. Relay_Close rl d \<notin> set pre)
     \<and> (\<forall>rl d. Relay_Close rl d \<notin> set post)"
proof -
  obtain post where ev: "Close_events env w =
      map Listener_Close (bound_listeners (srv w)) @
      Relay_Close (relay (srv w)) (30 * time_Second) # post"
    and post: "post = [Ctx_cancel] \<or> (\<exists>n. post = [Drain_timeout n, Ctx_cancel])"
    using Close_events_split by blast
  have "\<forall>l. Listener_Close l \<notin> set post" using post by auto
  moreover have "\<forall>rl d. Relay_Close rl d \<notin> set post" using post by auto
  moreover have "\<forall>rl d. Relay_Close rl d \<notin> set (map Listener_Close (bound_listeners (srv w)))"
    by auto
  ultimately show ?thesis using ev by blast
qed

theorem Close_listeners_then_relay_witness:
  "\<exists>post. Close_events \<lparr>ws_Close_err = None, ws_Close_time = 2,
                        udp_Close_err = None, udp_Close_time = 3\<rparr>
            (listening_world [None])
     = [Listener_Close (ws_Listener '':443'' None), Listener_Close (udp_NewListener '':443'')]
       @ Relay_Close 1 (30 * time_Second) # post"
  using Close_listeners_then_relay [where env="\<lparr>ws_Close_err = None, ws_Close_time = 2,
      udp_Close_err = None, udp_Close_time = 3\<rparr>" and w="listening_world [None]"]
  by (auto simp: listening_world_def bound_listeners_def)

text \<open>
  C3. The drain of phase 2 is bounded by a fixed deadline of 30 seconds: the one call
  \<^verbatim>\<open>Close\<close> makes to the relay engine carries a context that expires after exactly
  \<open>30 * time_Second\<close>, and the time \<^verbatim>\<open>Close\<close> takes is at most that deadline plus the
  time spent inside the two listeners' own \<^verbatim>\<open>Close\<close> calls, whatever sessions the relay
  engine tracks: how many there are and whether their peers ever respond does not enter
  the bound.
\<close>

theorem Close_drain_deadline:
  "[d. Relay_Close rl d \<leftarrow> Close_events env w] = [30 * time_Second]
   \<and> Close_elapsed env (w\<lparr>sessions := ss\<rparr>)
       \<le> 30 * time_Second + (ws_Close_time env + udp_Close_time env)"
proof -
  have "[d. Relay_Close rl d \<leftarrow> Close_events env w] = [30 * time_Second]"
    unfolding Close_events_eq by (simp add: bound_listeners_def split: option.splits)
  moreover have "Close_elapsed env (w\<lparr>sessions := ss\<rparr>)
       \<le> 30 * time_Second + (ws_Close_time env + udp_Close_time env)"
    unfolding Close_elapsed_def Close_clock
    using drain_wait_le [of "30 * time_Second" ss]
    by (simp split: option.splits)
  ultimately show ?thesis by blast
qed

theorem Close_drain_deadline_witness:
  "Close_elapsed \<lparr>ws_Close_err = None, ws_Close_time = 2,
                  udp_Close_err = None, udp_Close_time = 3\<rparr>
     ((listening_world [])\<lparr>sessions := [Some 7, None, None]\<rparr>) = 30000000005
   \<and> Close_elapsed \<lparr>ws_Close_err = None, ws_Close_time = 2,
                  udp_Close_err = None, udp_Close_time = 3\<rparr>
     ((listening_world [])\<lparr>sessions := [Some 7, None, None]\<rparr>) \<le> 30 * time_Second + (2 + 3)
   \<and> Close_events \<lparr>ws_Close_err = None, ws_Close_time = 2,
                  udp_Close_err = None, udp_Close_time = 3\<rparr>
       (listening_world [Some 7, None, None])
     = [Listener_Close (ws_Listener '':443'' None), Listener_Close (udp_NewListener '':443''),
        Relay_Close 1 30000000000, Drain_timeout 2, Ctx_cancel]"
proof -
  let ?env = "\<lparr>ws_Close_err = None, ws_Close_time = 2, udp_Close_err = None, udp_Close_time = 3\<rparr>"
  have a: "Close_elapsed ?env ((listening_world [])\<lparr>sessions := [Some 7, None, None]\<rparr>)
             = 30000000005"
    by (simp add: Close_elapsed_def Close_clock listening_world_def drain_wait_def
        session_wait_def time_Second_def)
  have b: "Close_events ?env (listening_world [Some 7, None, None])
     = [Listener_Close (ws_Listener '':443'' None), Listener_Close (udp_NewListener '':443''),
        Relay_Close 1 30000000000, Drain_timeout 2, Ctx_cancel]"
    by (simp add: Close_events_eq listening_world_def bound_listeners_def session_late_def
        time_Second_def)
  from Close_drain_deadline [where env="?env" and w="listening_world []"
      and ss="[Some 7, None, None]"] a b
  show ?thesis by simp
qed

text \<open>
  C4. Exceeding the drain deadline is never surfaced as an error: the value \<^verbatim>\<open>Close\<close>
  returns is the join of the two listener \<^verbatim>\<open>Close\<close> errors (nil for a listener the
  server does not hold), and it is the same for every set of tracked sessions, drained in
  time or not.
\<close>

theorem Close_error_is_listener_errors:
  "fst (Close env w) =
     errors_Join [case wSListener (srv w) of None \<Rightarrow> None | Some l \<Rightarrow> ws_Close_err env,
                  case uDPListener (srv w) of None \<Rightarrow> None | Some l \<Rightarrow> udp_Close_err env]
   \<and> fst (Close env (w\<lparr>sessions := ss\<rparr>)) = fst (Close env w)"
  unfolding Close_result by simp

theorem Close_error_is_listener_errors_witness:
  "fst (Close \<lparr>ws_Close_err = Some (Err ''w''), ws_Close_time = 2,
               udp_Close_err = None, udp_Close_time = 3\<rparr>
          (listening_world [None])) = Some (Join_Error [Err ''w''])
   \<and> fst (Close \<lparr>ws_Close_err = Some (Err ''w''), ws_Close_time = 2,
               udp_Close_err = None, udp_Close_time = 3\<rparr>
          ((listening_world [None])\<lparr>sessions := []\<rparr>)) = Some (Join_Error [Err ''w''])"
  using Close_error_is_listener_errors [where env="\<lparr>ws_Close_err = Some (Err ''w''),
      ws_Close_time = 2, udp_Close_err = None, udp_Close_time = 3\<rparr>"
      and w="listening_world [None]" and ss="[]"]
  by (simp add: listening_world_def errors_Join_def List.map_filter_simps)

text \<open>
  C8. \<^verbatim>\<open>Close\<close> is safe on a server whose \<^verbatim>\<open>Listen\<close> never ran: with both listener
  fields nil no listener \<^verbatim>\<open>Close\<close> is called, the relay drain is still issued, the
  listeners' state is untouched and the result is nil.
\<close>

theorem Close_without_Listen:
  assumes "wSListener (srv w) = None" and "uDPListener (srv w) = None"
  shows "fst (Close env w) = None
    \<and> [l. Listener_Close l \<leftarrow> Close_events env w] = []
    \<and> [rl. Relay_Close rl d \<leftarrow> Close_events env w] = [relay (srv w)]
    \<and> ws_status (snd (Close env w)) = ws_status w
    \<and> udp_status (snd (Close env w)) = udp_status w"
proof -
  have "fst (Close env w) = None"
    unfolding Close_result using assms by (simp add: errors_Join_def List.map_filter_simps)
  moreover have "[l. Listener_Close l \<leftarrow> Close_events env w] = []"
    unfolding Close_events_eq using assms by (simp add: bound_listeners_def)
  moreover have "[rl. Relay_Close rl d \<leftarrow> Close_events env w] = [relay (srv w)]"
    unfolding Close_events_eq using assms by (simp add: bound_listeners_def)
  moreover have "ws_status (snd (Close env w)) = ws_status w"
    using assms by (simp add: Close_def Relay_Close_call_def Let_def)
  moreover have "udp_status (snd (Close env w)) = udp_status w"
    using assms by (simp add: Close_def Relay_Close_call_def Let_def)
  ultimately show ?thesis by blast
qed



theorem Close_without_Listen_witness:
  "wSListener (srv (fresh_world 1 [Some 5, None])) = None
   \<and> uDPListener (srv (fresh_world 1 [Some 5, None])) = None
   \<and> fst (Close \<lparr>ws_Close_err = Some (Err ''w''), ws_Close_time = 1,
                 udp_Close_err = Some (Err ''u''), udp_Close_time = 1\<rparr>
             (fresh_world 1 [Some 5, None])) = None
   \<and> [l. Listener_Close l \<leftarrow>
         Close_events \<lparr>ws_Close_err = Some (Err ''w''), ws_Close_time = 1,
                       udp_Close_err = Some (Err ''u''), udp_Close_time = 1\<rparr>
           (fresh_world 1 [Some 5, None])] = []
   \<and> [rl. Relay_Close rl d \<leftarrow>
         Close_events \<lparr>ws_Close_err = Some (Err ''w''), ws_Close_time = 1,
                       udp_Close_err = Some (Err ''u''), udp_Close_time = 1\<rparr>
           (fresh_world 1 [Some 5, None])] = [1]"
proof -
  let ?w = "fresh_world 1 [Some 5, None]"
  have h1: "wSListener (srv ?w) = None" and h2: "uDPListener (srv ?w) = None"
    by (simp_all add: fresh_world_def NewServer_def)
  from Close_without_Listen [OF h1 h2] h1 h2
  show ?thesis by (simp add: fresh_world_def NewServer_def)
qed

section \<open>Properties of Server.Listen\<close>

lemmas step_defs = step_def main_step_def ws_step_def udp_step_def

lemma run_append: "run cfg env (a @ b) s = run cfg env b (run cfg env a s)"
  by (simp add: run_def)

lemma run_Cons: "run cfg env (t # ts) s = run cfg env ts (step cfg env t s)"
  by (simp add: run_def)

lemma run_Nil: "run cfg env [] s = s"
  by (simp add: run_def)

subsection \<open>The caller does not wait for the goroutines\<close>

lemma step_Returned:
  "pc s = Returned \<Longrightarrow>
     pc (step cfg env t s) = Returned \<and> result (step cfg env t s) = result s"
  by (cases t)
     (simp_all add: step_defs Let_def split: go_pc.splits option.splits bind_outcome.splits)

lemma run_Returned:
  "pc s = Returned \<Longrightarrow>
     pc (run cfg env sched s) = Returned \<and> result (run cfg env sched s) = result s"
proof (induction sched arbitrary: s)
  case Nil
  then show ?case by (simp add: run_Nil)
next
  case (Cons t ts)
  from step_Returned [OF Cons.prems, of cfg env t] Cons.IH [of "step cfg env t s"]
  show ?case by (simp add: run_Cons)
qed

lemma main_first_state:
  "Listen cfg env main_first w =
     (Listen_entry w)\<lparr>srv := (srv w)\<lparr>wSListener := Some (ws_Listener (Address cfg) (TLSConfig cfg)),
                                   uDPListener := Some (udp_NewListener (Address cfg))\<rparr>,
        ws_status := Unbound, udp_status := Unbound,
        pc := Returned, wg := 2, result := Some None,
        ws_pc := At_Listen, udp_pc := At_Listen\<rparr>"
  by (simp add: Listen_def run_def Listen_entry_def main_first_def step_def main_step_def
      errors_Join_def List.map_filter_simps numeral_eq_Suc)

lemma Listen_main_first_result:
  "result (Listen cfg env (main_first @ rest) w) = Some None"
proof -
  have "pc (Listen cfg env main_first w) = Returned"
    and "result (Listen cfg env main_first w) = Some None"
    by (simp_all add: main_first_state)
  then show ?thesis
    using run_Returned [of "Listen cfg env main_first w" cfg env rest]
    by (simp add: Listen_def run_append)
qed

lemma late_goroutines:
  "run cfg \<lparr>ws_bind = Bind_fails e1, udp_bind = Bind_fails e2\<rparr>
     (replicate 4 T_ws @ replicate 4 T_udp) (Listen cfg env main_first w) =
   (Listen cfg env main_first w)\<lparr>
      ws_status := Bind_failed e1, udp_status := Bind_failed e2,
      trace := trace w @
        [Listener_Listen (ws_Listener (Address cfg) (TLSConfig cfg)) (Relay_Accept (relay (srv w))),
         Log_Errorf ''failed to bind ws server: %s'' e1,
         Listener_Listen (udp_NewListener (Address cfg)) (Relay_Accept (relay (srv w))),
         Log_Errorf ''failed to bind ws server: %s'' e2],
      wg := 0, wslErr := Some e1, udpLErr := Some e2, ws_pc := Exited, udp_pc := Exited\<rparr>"
  by (simp add: main_first_state run_def Listen_entry_def step_def ws_step_def udp_step_def
      numeral_eq_Suc Let_def)

lemma goroutines_first_joins:
  "result (Listen cfg \<lparr>ws_bind = Bind_fails e1, udp_bind = Bind_fails e2\<rparr> goroutines_first w)
     = Some (Some (Join_Error [e1, e2]))"
  by (simp add: Listen_def run_def Listen_entry_def goroutines_first_def step_defs
      errors_Join_def List.map_filter_simps numeral_eq_Suc Let_def)

text \<open>
  C1. The claim is that \<^verbatim>\<open>Listen\<close> returns only once every listener has bound or
  failed, and returns the join of both bind errors. The source sets up a wait group
  (\<^verbatim>\<open>wg.Add(2)\<close>, a deferred \<^verbatim>\<open>wg.Done()\<close> in each goroutine) and never calls
  \<^verbatim>\<open>wg.Wait()\<close>. So in the schedule where the caller runs on before either goroutine gets
  a turn, \<^verbatim>\<open>Listen\<close> returns nil while neither listener has been asked to bind, whatever
  the binds do afterwards; when both binds then fail with \<open>e1\<close> and \<open>e2\<close>, the two error
  variables end up holding them, and their join is not the nil that was returned.
\<close>

theorem Listen_returns_before_binds:
  "result (Listen cfg env (main_first @ rest) w) = Some None
   \<and> ws_pc (Listen cfg env main_first w) = At_Listen
   \<and> udp_pc (Listen cfg env main_first w) = At_Listen
   \<and> ws_status (Listen cfg env main_first w) = Unbound
   \<and> udp_status (Listen cfg env main_first w) = Unbound
   \<and> (let s = Listen cfg \<lparr>ws_bind = Bind_fails e1, udp_bind = Bind_fails e2\<rparr>
                (main_first @ replicate 4 T_ws @ replicate 4 T_udp) w
      in result s = Some None
         \<and> ws_status s = Bind_failed e1 \<and> udp_status s = Bind_failed e2
         \<and> wslErr s = Some e1 \<and> udpLErr s = Some e2
         \<and> errors_Join [wslErr s, udpLErr s] = Some (Join_Error [e1, e2]))"
proof -
  let ?env = "\<lparr>ws_bind = Bind_fails e1, udp_bind = Bind_fails e2\<rparr>"
  let ?s = "Listen cfg ?env (main_first @ replicate 4 T_ws @ replicate 4 T_udp) w"
  have s: "?s = run cfg ?env (replicate 4 T_ws @ replicate 4 T_udp) (Listen cfg ?env main_first w)"
    by (simp add: Listen_def run_append)
  have "result ?s = Some None" by (rule Listen_main_first_result)
  moreover have "ws_status ?s = Bind_failed e1" "udp_status ?s = Bind_failed e2"
    "wslErr ?s = Some e1" "udpLErr ?s = Some e2"
    unfolding s late_goroutines by simp_all
  moreover from this have "errors_Join [wslErr ?s, udpLErr ?s] = Some (Join_Error [e1, e2])"
    by (simp add: errors_Join_def List.map_filter_simps)
  moreover have "result (Listen cfg env (main_first @ rest) w) = Some None"
    by (rule Listen_main_first_result)
  moreover have "ws_pc (Listen cfg env main_first w) = At_Listen"
    "udp_pc (Listen cfg env main_first w) = At_Listen"
    "ws_status (Listen cfg env main_first w) = Unbound"
    "udp_status (Listen cfg env main_first w) = Unbound"
    by (simp_all add: main_first_state)
  ultimately show ?thesis by (simp add: Let_def)
qed


subsection \<open>Invariants of the interleaving\<close>

lemma inv_entry: "Listen_inv cfg (Listen_entry w)"
  by (simp add: Listen_inv_def Listen_entry_def)

lemma inv_main_step: "Listen_inv cfg s \<Longrightarrow> Listen_inv cfg (main_step cfg s)"
  by (cases "pc s") (auto simp: Listen_inv_def main_step_def)

lemma inv_ws_step: "Listen_inv cfg s \<Longrightarrow> Listen_inv cfg (ws_step env s)"
  by (cases "ws_pc s")
     (auto simp: Listen_inv_def ws_step_def Let_def split: option.splits bind_outcome.splits)

lemma inv_udp_step: "Listen_inv cfg s \<Longrightarrow> Listen_inv cfg (udp_step env s)"
  by (cases "udp_pc s")
     (auto simp: Listen_inv_def udp_step_def Let_def split: option.splits bind_outcome.splits)

lemma inv_step: "Listen_inv cfg s \<Longrightarrow> Listen_inv cfg (step cfg env t s)"
  by (cases t) (simp_all add: step_def inv_main_step inv_ws_step inv_udp_step)

lemma inv_run: "Listen_inv cfg s \<Longrightarrow> Listen_inv cfg (run cfg env sched s)"
  by (induction sched arbitrary: s) (simp_all add: run_Nil run_Cons inv_step)

lemma inv_Listen: "Listen_inv cfg (Listen cfg env sched w)"
  unfolding Listen_def by (rule inv_run) (rule inv_entry)

lemma srv_ws_step: "srv (ws_step env s) = srv s"
  by (cases "ws_pc s")
     (simp_all add: ws_step_def Let_def split: option.splits bind_outcome.splits)

lemma srv_udp_step: "srv (udp_step env s) = srv s"
  by (cases "udp_pc s")
     (simp_all add: udp_step_def Let_def split: option.splits bind_outcome.splits)

lemma relay_main_step: "relay (srv (main_step cfg s)) = relay (srv s)"
  by (cases "pc s") (simp_all add: main_step_def)

lemma relay_step: "relay (srv (step cfg env t s)) = relay (srv s)"
  by (cases t) (simp_all add: step_def relay_main_step srv_ws_step srv_udp_step)

lemma relay_run: "relay (srv (run cfg env sched s)) = relay (srv s)"
  by (induction sched arbitrary: s) (simp_all add: run_Nil run_Cons relay_step)

lemma trace_step:
  "Listen_inv cfg s \<Longrightarrow>
   \<exists>evs. trace (step cfg env t s) = trace s @ evs
        \<and> list_all (Listen_event_ok cfg (relay (srv s))) evs"
proof (cases t)
  case T_main
  then have "trace (step cfg env t s) = trace s @ []"
    by (cases "pc s") (simp_all add: step_def main_step_def)
  then show ?thesis by (intro exI [of _ "[]"]) simp
next
  case T_ws
  assume "Listen_inv cfg s"
  with T_ws show ?thesis
    by (cases "ws_pc s")
       (auto simp: step_def ws_step_def Listen_inv_def Let_def
             split: option.splits bind_outcome.splits)
next
  case T_udp
  assume "Listen_inv cfg s"
  with T_udp show ?thesis
    by (cases "udp_pc s")
       (auto simp: step_def udp_step_def Listen_inv_def Let_def
             split: option.splits bind_outcome.splits)
qed

lemma trace_run:
  "Listen_inv cfg s \<Longrightarrow>
   \<exists>evs. trace (run cfg env sched s) = trace s @ evs
        \<and> list_all (Listen_event_ok cfg (relay (srv s))) evs"
proof (induction sched arbitrary: s)
  case Nil
  have "trace (run cfg env [] s) = trace s @ []" by (simp add: run_Nil)
  then show ?case by (intro exI [of _ "[]"]) simp
next
  case (Cons t ts)
  obtain e1 where e1: "trace (step cfg env t s) = trace s @ e1"
      "list_all (Listen_event_ok cfg (relay (srv s))) e1"
    using trace_step [OF Cons.prems] by blast
  obtain e2 where e2: "trace (run cfg env ts (step cfg env t s)) = trace (step cfg env t s) @ e2"
      "list_all (Listen_event_ok cfg (relay (srv (step cfg env t s)))) e2"
    using Cons.IH [OF inv_step [OF Cons.prems]] by blast
  have "trace (run cfg env (t # ts) s) = trace s @ (e1 @ e2)"
    using e1 e2 by (simp add: run_Cons)
  moreover have "list_all (Listen_event_ok cfg (relay (srv s))) (e1 @ e2)"
    using e1 e2 by (simp add: relay_step)
  ultimately show ?case by blast
qed

lemma Listen_events_ok:
  "list_all (Listen_event_ok cfg (relay (srv w))) (Listen_events cfg env sched w)"
proof -
  obtain evs where "trace (run cfg env sched (Listen_entry w)) = trace (Listen_entry w) @ evs"
    and "list_all (Listen_event_ok cfg (relay (srv (Listen_entry w)))) evs"
    using trace_run [OF inv_entry] by blast
  then show ?thesis
    by (simp add: Listen_events_def Listen_def Listen_entry_def)
qed


subsection \<open>The two listeners do not interfere\<close>

lemma ws_step_udp_side: "udp_side (ws_step env s) = udp_side s"
  by (cases "ws_pc s")
     (simp_all add: udp_side_def ws_step_def Let_def split: option.splits bind_outcome.splits)

lemma udp_step_ws_side: "ws_side (udp_step env s) = ws_side s"
  by (cases "udp_pc s")
     (simp_all add: ws_side_def udp_step_def Let_def split: option.splits bind_outcome.splits)

lemma main_step_udp_side:
  "udp_side s = udp_side s' \<Longrightarrow> udp_side (main_step cfg s) = udp_side (main_step cfg s')"
  by (cases "pc s") (simp_all add: udp_side_def main_step_def)

lemma main_step_ws_side:
  "ws_side s = ws_side s' \<Longrightarrow> ws_side (main_step cfg s) = ws_side (main_step cfg s')"
  by (cases "pc s") (simp_all add: ws_side_def main_step_def)

lemma udp_step_udp_side:
  assumes "udp_side s = udp_side s'" and "udp_bind env = udp_bind env'"
  shows "udp_side (udp_step env s) = udp_side (udp_step env' s')"
proof -
  from assms have eq: "pc s' = pc s" "srv s' = srv s" "udp_status s' = udp_status s"
    "udp_pc s' = udp_pc s" "udpLErr s' = udpLErr s" "udp_bind env' = udp_bind env"
    by (simp_all add: udp_side_def)
  show ?thesis
    by (cases "udp_pc s")
       (simp_all add: udp_side_def udp_step_def eq Let_def
             split: option.splits bind_outcome.splits)
qed

lemma ws_step_ws_side:
  assumes "ws_side s = ws_side s'" and "ws_bind env = ws_bind env'"
  shows "ws_side (ws_step env s) = ws_side (ws_step env' s')"
proof -
  from assms have eq: "pc s' = pc s" "srv s' = srv s" "ws_status s' = ws_status s"
    "ws_pc s' = ws_pc s" "wslErr s' = wslErr s" "ws_bind env' = ws_bind env"
    by (simp_all add: ws_side_def)
  show ?thesis
    by (cases "ws_pc s")
       (simp_all add: ws_side_def ws_step_def eq Let_def
             split: option.splits bind_outcome.splits)
qed

lemma step_udp_side:
  assumes "udp_side s = udp_side s'" and "udp_bind env = udp_bind env'"
  shows "udp_side (step cfg env t s) = udp_side (step cfg env' t s')"
proof (cases t)
  case T_main
  then show ?thesis using main_step_udp_side [OF assms(1)] by (simp add: step_def)
next
  case T_ws
  then show ?thesis using assms(1) by (simp add: step_def ws_step_udp_side)
next
  case T_udp
  then show ?thesis using udp_step_udp_side [OF assms] by (simp add: step_def)
qed

lemma step_ws_side:
  assumes "ws_side s = ws_side s'" and "ws_bind env = ws_bind env'"
  shows "ws_side (step cfg env t s) = ws_side (step cfg env' t s')"
proof (cases t)
  case T_main
  then show ?thesis using main_step_ws_side [OF assms(1)] by (simp add: step_def)
next
  case T_ws
  then show ?thesis using ws_step_ws_side [OF assms] by (simp add: step_def)
next
  case T_udp
  then show ?thesis using assms(1) by (simp add: step_def udp_step_ws_side)
qed

lemma run_udp_side:
  "udp_side s = udp_side s' \<Longrightarrow> udp_bind env = udp_bind env' \<Longrightarrow>
     udp_side (run cfg env sched s) = udp_side (run cfg env' sched s')"
proof (induction sched arbitrary: s s')
  case Nil
  then show ?case by (simp add: run_Nil)
next
  case (Cons t ts)
  show ?case
    unfolding run_Cons
    by (rule Cons.IH) (rule step_udp_side [OF Cons.prems], rule Cons.prems(2))
qed

lemma run_ws_side:
  "ws_side s = ws_side s' \<Longrightarrow> ws_bind env = ws_bind env' \<Longrightarrow>
     ws_side (run cfg env sched s) = ws_side (run cfg env' sched s')"
proof (induction sched arbitrary: s s')
  case Nil
  then show ?case by (simp add: run_Nil)
next
  case (Cons t ts)
  show ?case
    unfolding run_Cons
    by (rule Cons.IH) (rule step_ws_side [OF Cons.prems], rule Cons.prems(2))
qed

lemma Listen_udp_side:
  "udp_side (Listen cfg (env\<lparr>ws_bind := b\<rparr>) sched w) = udp_side (Listen cfg env sched w)"
  unfolding Listen_def by (rule run_udp_side) simp_all

lemma Listen_ws_side:
  "ws_side (Listen cfg (env\<lparr>udp_bind := b\<rparr>) sched w) = ws_side (Listen cfg env sched w)"
  unfolding Listen_def by (rule run_ws_side) simp_all

lemma In_Listen_step_ws:
  assumes "Listen_inv cfg s" and "ws_pc s = In_Listen"
  shows "ws_pc (step cfg env t s) = In_Listen"
proof (cases t)
  case T_main
  from assms have "3 \<le> pc_ord (pc s)" by (simp add: Listen_inv_def)
  with assms(2) T_main show ?thesis
    by (cases "pc s") (simp_all add: step_def main_step_def)
next
  case T_ws
  with assms(2) show ?thesis by (simp add: step_def ws_step_def)
next
  case T_udp
  with assms(2) udp_step_ws_side [of env s] show ?thesis
    by (simp add: step_def ws_side_def)
qed

lemma In_Listen_step_udp:
  assumes "Listen_inv cfg s" and "udp_pc s = In_Listen"
  shows "udp_pc (step cfg env t s) = In_Listen"
proof (cases t)
  case T_main
  from assms have "5 \<le> pc_ord (pc s)" by (simp add: Listen_inv_def)
  with assms(2) T_main show ?thesis
    by (cases "pc s") (simp_all add: step_def main_step_def)
next
  case T_ws
  with assms(2) ws_step_udp_side [of env s] show ?thesis
    by (simp add: step_def udp_side_def)
next
  case T_udp
  with assms(2) show ?thesis by (simp add: step_def udp_step_def)
qed

lemma In_Listen_run_ws:
  "Listen_inv cfg s \<Longrightarrow> ws_pc s = In_Listen \<Longrightarrow> ws_pc (run cfg env sched s) = In_Listen"
  by (induction sched arbitrary: s) (simp_all add: run_Nil run_Cons In_Listen_step_ws inv_step)

lemma In_Listen_run_udp:
  "Listen_inv cfg s \<Longrightarrow> udp_pc s = In_Listen \<Longrightarrow> udp_pc (run cfg env sched s) = In_Listen"
  by (induction sched arbitrary: s) (simp_all add: run_Nil run_Cons In_Listen_step_udp inv_step)

lemma In_Listen_Accepting:
  "ws_pc (Listen cfg env sched w) = In_Listen \<Longrightarrow>
     ws_status (Listen cfg env sched w) = Accepting (Relay_Accept (relay (srv w)))"
  "udp_pc (Listen cfg env sched w) = In_Listen \<Longrightarrow>
     udp_status (Listen cfg env sched w) = Accepting (Relay_Accept (relay (srv w)))"
  using inv_Listen [of cfg env sched w] relay_run [of cfg env sched "Listen_entry w"]
  by (simp_all add: Listen_inv_def Listen_def Listen_entry_def)

lemma ok_no_Listener_Close:
  "list_all (Listen_event_ok cfg rl) evs \<Longrightarrow> [l. Listener_Close l \<leftarrow> evs] = []"
proof (induction evs)
  case Nil
  then show ?case by simp
next
  case (Cons e evs)
  then show ?case by (cases e) simp_all
qed





lemma goroutines_first_state:
  "Listen cfg \<lparr>ws_bind = Bind_fails e, udp_bind = Binds\<rparr> goroutines_first w =
     (Listen_entry w)\<lparr>
        srv := (srv w)\<lparr>wSListener := Some (ws_Listener (Address cfg) (TLSConfig cfg)),
                       uDPListener := Some (udp_NewListener (Address cfg))\<rparr>,
        ws_status := Bind_failed e,
        udp_status := Accepting (Relay_Accept (relay (srv w))),
        trace := trace w @
          [Listener_Listen (ws_Listener (Address cfg) (TLSConfig cfg)) (Relay_Accept (relay (srv w))),
           Log_Errorf ''failed to bind ws server: %s'' e,
           Listener_Listen (udp_NewListener (Address cfg)) (Relay_Accept (relay (srv w)))],
        pc := Returned, wg := 1, wslErr := Some e, arg1 := Some e,
        err := Some (Join_Error [e]), result := Some (Some (Join_Error [e])),
        ws_pc := Exited, udp_pc := In_Listen\<rparr>"
  by (simp add: Listen_def run_def Listen_entry_def goroutines_first_def step_defs
      errors_Join_def List.map_filter_simps numeral_eq_Suc Let_def)


text \<open>
  C5. \<^verbatim>\<open>Listen\<close> does not fail fast. Under every schedule, the state of the
  message-oriented listener and the server's field for it are the same whatever the bind
  of the streamed listener does, and the other way round; \<^verbatim>\<open>Listen\<close> never calls
  \<^verbatim>\<open>Close\<close> on a listener; and a listener that has bound (its goroutine is inside
  \<^verbatim>\<open>Listen\<close>) is still bound and accepting for the server's relay after any further
  steps of the three threads, among them the sibling's failure.
\<close>

theorem Listen_no_fail_fast:
  "udp_status (Listen cfg (env\<lparr>ws_bind := b\<rparr>) sched w) = udp_status (Listen cfg env sched w)
   \<and> uDPListener (srv (Listen cfg (env\<lparr>ws_bind := b\<rparr>) sched w))
       = uDPListener (srv (Listen cfg env sched w))
   \<and> ws_status (Listen cfg (env\<lparr>udp_bind := b\<rparr>) sched w) = ws_status (Listen cfg env sched w)
   \<and> wSListener (srv (Listen cfg (env\<lparr>udp_bind := b\<rparr>) sched w))
       = wSListener (srv (Listen cfg env sched w))
   \<and> [l. Listener_Close l \<leftarrow> Listen_events cfg env sched w] = []
   \<and> (udp_pc (Listen cfg env sched w) = In_Listen \<longrightarrow>
        udp_pc (Listen cfg env (sched @ later) w) = In_Listen \<and>
        udp_status (Listen cfg env (sched @ later) w) = Accepting (Relay_Accept (relay (srv w))))
   \<and> (ws_pc (Listen cfg env sched w) = In_Listen \<longrightarrow>
        ws_pc (Listen cfg env (sched @ later) w) = In_Listen \<and>
        ws_status (Listen cfg env (sched @ later) w) = Accepting (Relay_Accept (relay (srv w))))"
proof -
  have u: "udp_status (Listen cfg (env\<lparr>ws_bind := b\<rparr>) sched w) = udp_status (Listen cfg env sched w)"
    "uDPListener (srv (Listen cfg (env\<lparr>ws_bind := b\<rparr>) sched w))
       = uDPListener (srv (Listen cfg env sched w))"
    using Listen_udp_side [where cfg=cfg and env=env and b=b and sched=sched and w=w] by (simp_all add: udp_side_def)
  have v: "ws_status (Listen cfg (env\<lparr>udp_bind := b\<rparr>) sched w) = ws_status (Listen cfg env sched w)"
    "wSListener (srv (Listen cfg (env\<lparr>udp_bind := b\<rparr>) sched w))
       = wSListener (srv (Listen cfg env sched w))"
    using Listen_ws_side [where cfg=cfg and env=env and b=b and sched=sched and w=w] by (simp_all add: ws_side_def)
  have c: "[l. Listener_Close l \<leftarrow> Listen_events cfg env sched w] = []"
    by (rule ok_no_Listener_Close) (rule Listen_events_ok)
  have later: "Listen cfg env (sched @ later) w = run cfg env later (Listen cfg env sched w)"
    by (simp add: Listen_def run_append)
  have pu: "udp_pc (Listen cfg env (sched @ later) w) = In_Listen \<and>
        udp_status (Listen cfg env (sched @ later) w) = Accepting (Relay_Accept (relay (srv w)))"
    if "udp_pc (Listen cfg env sched w) = In_Listen"
  proof -
    have "udp_pc (Listen cfg env (sched @ later) w) = In_Listen"
      unfolding later by (rule In_Listen_run_udp [OF inv_Listen that])
    then show ?thesis by (simp add: In_Listen_Accepting(2))
  qed
  have pw: "ws_pc (Listen cfg env (sched @ later) w) = In_Listen \<and>
        ws_status (Listen cfg env (sched @ later) w) = Accepting (Relay_Accept (relay (srv w)))"
    if "ws_pc (Listen cfg env sched w) = In_Listen"
  proof -
    have "ws_pc (Listen cfg env (sched @ later) w) = In_Listen"
      unfolding later by (rule In_Listen_run_ws [OF inv_Listen that])
    then show ?thesis by (simp add: In_Listen_Accepting(1))
  qed
  from u v c pu pw show ?thesis by blast
qed

theorem Listen_no_fail_fast_witness:
  "udp_pc (Listen \<lparr>Address = '':443'', TLSConfig = Some ''cert''\<rparr>
             \<lparr>ws_bind = Bind_fails (Err ''address in use''), udp_bind = Binds\<rparr>
             goroutines_first (fresh_world 1 [])) = In_Listen
   \<and> ws_status (Listen \<lparr>Address = '':443'', TLSConfig = Some ''cert''\<rparr>
             \<lparr>ws_bind = Bind_fails (Err ''address in use''), udp_bind = Binds\<rparr>
             goroutines_first (fresh_world 1 [])) = Bind_failed (Err ''address in use'')
   \<and> udp_status (Listen \<lparr>Address = '':443'', TLSConfig = Some ''cert''\<rparr>
             \<lparr>ws_bind = Bind_fails (Err ''address in use''), udp_bind = Binds\<rparr>
             (goroutines_first @ [T_ws, T_main, T_udp]) (fresh_world 1 []))
       = Accepting (Relay_Accept 1)"
proof -
  let ?cfg = "\<lparr>Address = '':443'', TLSConfig = Some ''cert''\<rparr>"
  let ?env = "\<lparr>ws_bind = Bind_fails (Err ''address in use''), udp_bind = Binds\<rparr>"
  have a: "udp_pc (Listen ?cfg ?env goroutines_first (fresh_world 1 [])) = In_Listen"
    and b: "ws_status (Listen ?cfg ?env goroutines_first (fresh_world 1 []))
              = Bind_failed (Err ''address in use'')"
    by (simp_all add: goroutines_first_state)
  from a Listen_no_fail_fast [where cfg="?cfg" and env="?env" and b=Binds
      and sched=goroutines_first and w="fresh_world 1 []" and later="[T_ws, T_main, T_udp]"]
  have "udp_status (Listen ?cfg ?env (goroutines_first @ [T_ws, T_main, T_udp]) (fresh_world 1 []))
       = Accepting (Relay_Accept 1)"
    by (simp add: fresh_world_def NewServer_def)
  with a b show ?thesis by simp
qed



subsection \<open>The accept callback reaches both listeners\<close>













section \<open>Properties of the nameserver-group handlers\<close>

subsection \<open>toServerNSList\<close>

lemma loop_all_parse:
  "\<forall>y\<in>set xs. \<not> isl (ParseNameServerURL P (nameserver_url y)) \<Longrightarrow>
     toServerNSList_loop P xs acc =
       (acc @ map (\<lambda>y. projr (ParseNameServerURL P (nameserver_url y))) xs, None)"
proof (induction xs arbitrary: acc)
  case Nil
  then show ?case by simp
next
  case (Cons x xs)
  from Cons.prems obtain v where v: "ParseNameServerURL P (nameserver_url x) = Inr v"
    by (cases "ParseNameServerURL P (nameserver_url x)") auto
  from Cons.prems have "\<forall>y\<in>set xs. \<not> isl (ParseNameServerURL P (nameserver_url y))"
    by simp
  from Cons.IH [OF this, of "acc @ [v]"] v show ?case by simp
qed

lemma loop_first_fail:
  "\<forall>y\<in>set pre. \<not> isl (ParseNameServerURL P (nameserver_url y)) \<Longrightarrow>
   ParseNameServerURL P (nameserver_url x) = Inl e \<Longrightarrow>
     toServerNSList_loop P (pre @ x # post) acc = ([], Some e)"
proof (induction pre arbitrary: acc)
  case Nil
  then show ?case by simp
next
  case (Cons p pre)
  from Cons.prems(1) obtain v where v: "ParseNameServerURL P (nameserver_url p) = Inr v"
    by (cases "ParseNameServerURL P (nameserver_url p)") auto
  from Cons.prems(1) have "\<forall>y\<in>set pre. \<not> isl (ParseNameServerURL P (nameserver_url y))"
    by simp
  from Cons.IH [OF this Cons.prems(2), of "acc @ [v]"] v show ?case by simp
qed

lemma loop_some_fail:
  assumes "\<exists>y\<in>set xs. isl (ParseNameServerURL P (nameserver_url y))"
  shows "fst (toServerNSList_loop P xs acc) = [] \<and> snd (toServerNSList_loop P xs acc) \<noteq> None"
proof -
  from assms obtain pre x post where xs: "xs = pre @ x # post"
    and x: "isl (ParseNameServerURL P (nameserver_url x))"
    and pre: "\<forall>y\<in>set pre. \<not> isl (ParseNameServerURL P (nameserver_url y))"
    using split_list_first_prop [of xs "\<lambda>y. isl (ParseNameServerURL P (nameserver_url y))"]
    by blast
  from x obtain e where "ParseNameServerURL P (nameserver_url x) = Inl e"
    by (cases "ParseNameServerURL P (nameserver_url x)") auto
  from loop_first_fail [OF pre this, of post acc] xs show ?thesis by simp
qed

text \<open>
  C9. \<^verbatim>\<open>toServerNSList\<close> is all-or-nothing. If an entry fails to parse and every
  entry before it parses, the result is the nil list and the error of that first failing
  entry; so whenever some entry fails to parse the list is nil and the error is not.
  If every entry parses, the result is the parsed entries, one per input entry and in
  input order, and a nil error.
\<close>

theorem toServerNSList_all_or_nothing:
  "((\<forall>y\<in>set pre. \<not> isl (ParseNameServerURL P (nameserver_url y))) \<and>
     ParseNameServerURL P (nameserver_url x) = Inl e \<longrightarrow>
       toServerNSList P (pre @ x # post) = ([], Some e))
   \<and> ((\<exists>y\<in>set apiNSList. isl (ParseNameServerURL P (nameserver_url y))) \<longrightarrow>
       fst (toServerNSList P apiNSList) = [] \<and> snd (toServerNSList P apiNSList) \<noteq> None)
   \<and> ((\<forall>y\<in>set apiNSList. \<not> isl (ParseNameServerURL P (nameserver_url y))) \<longrightarrow>
       toServerNSList P apiNSList =
         (map (\<lambda>y. projr (ParseNameServerURL P (nameserver_url y))) apiNSList, None)
       \<and> length (fst (toServerNSList P apiNSList)) = length apiNSList)"
proof -
  have a: "toServerNSList P (pre @ x # post) = ([], Some e)"
    if "\<forall>y\<in>set pre. \<not> isl (ParseNameServerURL P (nameserver_url y))"
      and "ParseNameServerURL P (nameserver_url x) = Inl e"
    unfolding toServerNSList_def using that by (rule loop_first_fail)
  have b: "fst (toServerNSList P apiNSList) = [] \<and> snd (toServerNSList P apiNSList) \<noteq> None"
    if "\<exists>y\<in>set apiNSList. isl (ParseNameServerURL P (nameserver_url y))"
    unfolding toServerNSList_def using that by (rule loop_some_fail)
  have c: "toServerNSList P apiNSList =
         (map (\<lambda>y. projr (ParseNameServerURL P (nameserver_url y))) apiNSList, None)
       \<and> length (fst (toServerNSList P apiNSList)) = length apiNSList"
    if "\<forall>y\<in>set apiNSList. \<not> isl (ParseNameServerURL P (nameserver_url y))"
    unfolding toServerNSList_def using loop_all_parse [OF that, of "[]"] by simp
  from a b c show ?thesis by blast
qed

lemma nameserver_url_example:
  "nameserver_url \<lparr>Ip = ''10.0.0.1'', NsType = ''udp'', Port = 53\<rparr> = ''udp://10.0.0.1:53''"
  "nameserver_url \<lparr>Ip = ''10.0.0.2'', NsType = ''tcp'', Port = -1\<rparr> = ''tcp://10.0.0.2:-1''"
  by (simp_all add: nameserver_url_def fmt_d_def)

theorem toServerNSList_all_or_nothing_witness:
  "toServerNSList example_packages
     [\<lparr>Ip = ''10.0.0.1'', NsType = ''udp'', Port = 53\<rparr>,
      \<lparr>Ip = ''10.0.0.2'', NsType = ''tcp'', Port = -1\<rparr>,
      \<lparr>Ip = ''10.0.0.1'', NsType = ''udp'', Port = 53\<rparr>]
     = ([], Some (Err ''invalid nameserver url''))
   \<and> toServerNSList example_packages
     [\<lparr>Ip = ''10.0.0.1'', NsType = ''udp'', Port = 53\<rparr>,
      \<lparr>Ip = ''10.0.0.1'', NsType = ''udp'', Port = 53\<rparr>]
     = ([\<lparr>IP = ''10.0.0.1'', NSType = ''udp'', NS_Port = 53\<rparr>,
         \<lparr>IP = ''10.0.0.1'', NSType = ''udp'', NS_Port = 53\<rparr>], None)"
proof -
  let ?good = "\<lparr>Ip = ''10.0.0.1'', NsType = ''udp'', Port = 53\<rparr>"
  let ?bad = "\<lparr>Ip = ''10.0.0.2'', NsType = ''tcp'', Port = -1\<rparr>"
  have good: "ParseNameServerURL example_packages (nameserver_url ?good)
                = Inr \<lparr>IP = ''10.0.0.1'', NSType = ''udp'', NS_Port = 53\<rparr>"
    and bad: "ParseNameServerURL example_packages (nameserver_url ?bad)
                = Inl (Err ''invalid nameserver url'')"
    by (simp_all add: example_packages_def nameserver_url_def fmt_d_def)
  have pre: "\<forall>y\<in>set [?good]. \<not> isl (ParseNameServerURL example_packages (nameserver_url y))"
    using good by simp
  have all: "\<forall>y\<in>set [?good, ?good].
               \<not> isl (ParseNameServerURL example_packages (nameserver_url y))"
    using good by simp
  from toServerNSList_all_or_nothing [where P=example_packages and pre="[?good]" and x="?bad"
      and post="[?good]" and e="Err ''invalid nameserver url''" and apiNSList="[?good, ?good]"]
    pre bad all good
  show ?thesis by simp
qed

subsection \<open>The guard on an empty group ID\<close>

lemma guard_Update:
  "mux_Vars r ''nsgroupId'' = [] \<Longrightarrow>
     UpdateNameserverGroup h P r \<sigma> =
       \<sigma>\<lparr>written := written \<sigma> @
           [util_WriteError (Status_Error InvalidArgument ''invalid nameserver group ID'')]\<rparr>"
  by (simp add: UpdateNameserverGroup_def respond_def status_Errorf_def)

lemma guard_Delete:
  "mux_Vars r ''nsgroupId'' = [] \<Longrightarrow>
     DeleteNameserverGroup h r \<sigma> =
       \<sigma>\<lparr>written := written \<sigma> @
           [util_WriteError (Status_Error InvalidArgument ''invalid nameserver group ID'')]\<rparr>"
  by (simp add: DeleteNameserverGroup_def respond_def status_Errorf_def)

lemma guard_Get:
  "mux_Vars r ''nsgroupId'' = [] \<Longrightarrow>
     GetNameserverGroup h P r \<sigma> =
       \<sigma>\<lparr>written := written \<sigma> @
           [util_WriteError (Status_Error InvalidArgument ''invalid nameserver group ID'')]\<rparr>"
  by (simp add: GetNameserverGroup_def respond_def status_Errorf_def)

text \<open>
  C10. The Get, Update and Delete handlers guard on an empty \<^verbatim>\<open>nsgroupId\<close>: when the
  path variable is the empty string (or absent), each handler writes the InvalidArgument
  error "invalid nameserver group ID" and nothing else, invokes no method of the account
  manager and leaves the store as it was.
\<close>

theorem empty_nsgroupId_guard:
  assumes "mux_Vars r ''nsgroupId'' = []"
  shows "store (GetNameserverGroup h P r \<sigma>) = store \<sigma>
    \<and> am_calls (GetNameserverGroup h P r \<sigma>) = am_calls \<sigma>
    \<and> written (GetNameserverGroup h P r \<sigma>) = written \<sigma> @
         [util_WriteError (Status_Error InvalidArgument ''invalid nameserver group ID'')]
    \<and> store (UpdateNameserverGroup h P r \<sigma>) = store \<sigma>
    \<and> am_calls (UpdateNameserverGroup h P r \<sigma>) = am_calls \<sigma>
    \<and> written (UpdateNameserverGroup h P r \<sigma>) = written \<sigma> @
         [util_WriteError (Status_Error InvalidArgument ''invalid nameserver group ID'')]
    \<and> store (DeleteNameserverGroup h r \<sigma>) = store \<sigma>
    \<and> am_calls (DeleteNameserverGroup h r \<sigma>) = am_calls \<sigma>
    \<and> written (DeleteNameserverGroup h r \<sigma>) = written \<sigma> @
         [util_WriteError (Status_Error InvalidArgument ''invalid nameserver group ID'')]"
  by (simp add: guard_Get [OF assms] guard_Update [OF assms] guard_Delete [OF assms])

lemma Delete_with_id_example:
  "DeleteNameserverGroup example_handler \<lparr>Vars = [''nsgroupId'' \<mapsto> ''g1''], Body = []\<rparr>
     \<lparr>store = 0, am_calls = [], written = []\<rparr>
   = \<lparr>store = 1, am_calls = [Call_DeleteNameServerGroup ''acc'' ''g1'' ''usr''],
      written = [util_WriteJSONObject JSON_emptyObject]\<rparr>"
  by (simp add: DeleteNameserverGroup_def example_handler_def mux_Vars_def respond_def)

theorem empty_nsgroupId_guard_witness:
  "mux_Vars \<lparr>Vars = [''nsgroupId'' \<mapsto> []], Body = []\<rparr> ''nsgroupId'' = []
   \<and> DeleteNameserverGroup example_handler \<lparr>Vars = [''nsgroupId'' \<mapsto> []], Body = []\<rparr>
       \<lparr>store = 0, am_calls = [], written = []\<rparr>
     = \<lparr>store = 0, am_calls = [],
        written = [util_WriteError
                     (Status_Error InvalidArgument ''invalid nameserver group ID'')]\<rparr>
   \<and> store (GetNameserverGroup example_handler example_packages
              \<lparr>Vars = [''nsgroupId'' \<mapsto> []], Body = []\<rparr>
              \<lparr>store = 0, am_calls = [], written = []\<rparr>) = 0
   \<and> am_calls (UpdateNameserverGroup example_handler example_packages
              \<lparr>Vars = [''nsgroupId'' \<mapsto> []], Body = []\<rparr>
              \<lparr>store = 0, am_calls = [], written = []\<rparr>) = []"
proof -
  let ?r = "\<lparr>Vars = [''nsgroupId'' \<mapsto> []], Body = []\<rparr>"
  let ?s = "\<lparr>store = 0::nat, am_calls = [] :: (string, string) am_call list, written = []\<rparr>"
  have h: "mux_Vars ?r ''nsgroupId'' = []" by (simp add: mux_Vars_def)
  from empty_nsgroupId_guard [OF h, of example_handler example_packages ?s] h
  show ?thesis by simp
qed

end
